theory Spec2Isabelle
  imports Main "HOL-Library.Word" "HOL-Library.AList"
begin

unbundle bit_operations_syntax

section \<open>Python string primitives used by simple\_task\_mcp.py\<close>

text \<open>
  A Python \<open>str\<close> is modelled as a \<^typ>\<open>string\<close>; a \<^typ>\<open>char\<close> stands for the Unicode
  code point of the same number (U+0000 to U+00FF).  \<open>isspace\<close> is Python's \<open>str.isspace\<close>
  on that range: TAB, LF, VT, FF, CR, the separators U+001C to U+001F, SPACE, NEL (U+0085)
  and NBSP (U+00A0).
\<close>

definition isspace :: "char \<Rightarrow> bool" where
  "isspace c =
     (let n = (of_char c :: nat)
      in (9 \<le> n \<and> n \<le> 13) \<or> (28 \<le> n \<and> n \<le> 32) \<or> n = 133 \<or> n = 160)"

definition lstrip :: "string \<Rightarrow> string" where
  "lstrip s = dropWhile isspace s"

definition rstrip :: "string \<Rightarrow> string" where
  "rstrip s = rev (dropWhile isspace (rev s))"

definition strip :: "string \<Rightarrow> string" where
  "strip s = lstrip (rstrip s)"

text \<open>\<open>s.split('\n')\<close>: never empty, \<open>''.split('\n') == ['']\<close>.\<close>

fun split_nl :: "string \<Rightarrow> string list" where
  "split_nl [] = [Nil]"
| "split_nl (c # cs) =
     (if c = CHR 0x0A then [] # split_nl cs
      else (case split_nl cs of [] \<Rightarrow> [c] # [] | l # ls \<Rightarrow> (c # l) # ls))"

text \<open>\<open>'\n'.join(xs)\<close>.\<close>

fun join_nl :: "string list \<Rightarrow> string" where
  "join_nl [] = []"
| "join_nl [x] = x"
| "join_nl (x # y # ys) = x @ CHR 0x0A # join_nl (y # ys)"

text \<open>\<open>s.startswith('#')\<close>.\<close>

fun startswith_hash :: "string \<Rightarrow> bool" where
  "startswith_hash [] = False"
| "startswith_hash (c # cs) = (c = CHR ''#'')"

text \<open>\<open>task.split('\n')[0].strip()\<close>, the first line shown in every reply.\<close>

definition first_line :: "string \<Rightarrow> string" where
  "first_line task = strip (hd (split_nl task))"

datatype error = FileNotFoundError | ValueError | IndexError

text \<open>\<open>xs[i]\<close> on a Python list: positions \<open>0 .. len-1\<close> read from the front,
  \<open>-len .. -1\<close> from the back, anything else raises IndexError.\<close>

definition py_index :: "'a list \<Rightarrow> int \<Rightarrow> error + 'a" where
  "py_index xs i =
     (if 0 \<le> i \<and> i < int (length xs) then Inr (xs ! nat i)
      else if - int (length xs) \<le> i \<and> i < 0 then Inr (xs ! nat (int (length xs) + i))
      else Inl IndexError)"

section \<open>hashlib.md5 (RFC 1321) and generate\_task\_hash\<close>

type_synonym u32 = "32 word"
type_synonym byte = int

definition md5_K :: "u32 list" where
  "md5_K = [0xd76aa478, 0xe8c7b756, 0x242070db, 0xc1bdceee, 0xf57c0faf, 0x4787c62a,
     0xa8304613, 0xfd469501, 0x698098d8, 0x8b44f7af, 0xffff5bb1, 0x895cd7be, 0x6b901122,
     0xfd987193, 0xa679438e, 0x49b40821, 0xf61e2562, 0xc040b340, 0x265e5a51, 0xe9b6c7aa,
     0xd62f105d, 0x02441453, 0xd8a1e681, 0xe7d3fbc8, 0x21e1cde6, 0xc33707d6, 0xf4d50d87,
     0x455a14ed, 0xa9e3e905, 0xfcefa3f8, 0x676f02d9, 0x8d2a4c8a, 0xfffa3942, 0x8771f681,
     0x6d9d6122, 0xfde5380c, 0xa4beea44, 0x4bdecfa9, 0xf6bb4b60, 0xbebfbc70, 0x289b7ec6,
     0xeaa127fa, 0xd4ef3085, 0x04881d05, 0xd9d4d039, 0xe6db99e5, 0x1fa27cf8, 0xc4ac5665,
     0xf4292244, 0x432aff97, 0xab9423a7, 0xfc93a039, 0x655b59c3, 0x8f0ccc92, 0xffeff47d,
     0x85845dd1, 0x6fa87e4f, 0xfe2ce6e0, 0xa3014314, 0x4e0811a1, 0xf7537e82, 0xbd3af235,
     0x2ad7d2bb, 0xeb86d391]"

definition md5_S :: "nat list" where
  "md5_S = [7, 12, 17, 22, 7, 12, 17, 22, 7, 12, 17, 22, 7, 12, 17, 22,
            5, 9, 14, 20, 5, 9, 14, 20, 5, 9, 14, 20, 5, 9, 14, 20,
            4, 11, 16, 23, 4, 11, 16, 23, 4, 11, 16, 23, 4, 11, 16, 23,
            6, 10, 15, 21, 6, 10, 15, 21, 6, 10, 15, 21, 6, 10, 15, 21]"

definition rotl32 :: "u32 \<Rightarrow> nat \<Rightarrow> u32" where
  "rotl32 x n = push_bit n x OR drop_bit (32 - n) x"

fun md5_round :: "u32 list \<Rightarrow> nat \<Rightarrow> u32 \<times> u32 \<times> u32 \<times> u32 \<Rightarrow> u32 \<times> u32 \<times> u32 \<times> u32" where
  "md5_round M i (a, b, c, d) =
     (let (f, g) =
        (if i < 16 then ((b AND c) OR (NOT b AND d), i)
         else if i < 32 then ((d AND b) OR (NOT d AND c), (5 * i + 1) mod 16)
         else if i < 48 then (b XOR c XOR d, (3 * i + 5) mod 16)
         else (c XOR (b OR NOT d), (7 * i) mod 16));
        f' = f + a + md5_K ! i + M ! g
      in (d, b + rotl32 f' (md5_S ! i), b, c))"

definition md5_block :: "u32 \<times> u32 \<times> u32 \<times> u32 \<Rightarrow> u32 list \<Rightarrow> u32 \<times> u32 \<times> u32 \<times> u32" where
  "md5_block h M =
     (case (h, fold (md5_round M) [0..<64] h) of
        ((a0, b0, c0, d0), (a, b, c, d)) \<Rightarrow> (a0 + a, b0 + b, c0 + c, d0 + d))"

definition le_bytes :: "nat \<Rightarrow> int \<Rightarrow> byte list" where
  "le_bytes k n = map (\<lambda>i. (n div 256 ^ i) mod 256) [0..<k]"

definition md5_pad :: "byte list \<Rightarrow> byte list" where
  "md5_pad bs =
     bs @ [128] @ replicate ((55 + 64 - length bs mod 64) mod 64) 0
        @ le_bytes 8 ((8 * int (length bs)) mod 2 ^ 64)"

fun chunks :: "nat \<Rightarrow> nat \<Rightarrow> 'a list \<Rightarrow> 'a list list" where
  "chunks 0 k xs = []"
| "chunks (Suc n) k xs = take k xs # chunks n k (drop k xs)"

definition word_of_le :: "byte list \<Rightarrow> u32" where
  "word_of_le bs = word_of_int (foldr (\<lambda>b acc. b + 256 * acc) bs 0)"

definition md5_words :: "byte list \<Rightarrow> u32 list" where
  "md5_words blk = map word_of_le (chunks 16 4 blk)"

definition md5_digest :: "byte list \<Rightarrow> byte list" where
  "md5_digest bs =
     (let p = md5_pad bs;
          blocks = chunks (length p div 64) 64 p;
          (a, b, c, d) = fold (\<lambda>blk h. md5_block h (md5_words blk)) blocks
                           (0x67452301, 0xefcdab89, 0x98badcfe, 0x10325476)
      in concat (map (\<lambda>w. le_bytes 4 (uint w)) [a, b, c, d]))"

definition hex_digit :: "int \<Rightarrow> char" where
  "hex_digit n = ''0123456789abcdef'' ! nat n"

definition hexdigest :: "byte list \<Rightarrow> string" where
  "hexdigest bs = concat (map (\<lambda>b. [hex_digit (b div 16), hex_digit (b mod 16)]) bs)"

text \<open>\<open>str.encode('utf-8')\<close> on code points below U+0100: one byte below U+0080, two
  bytes from there on.\<close>

definition utf8_encode :: "string \<Rightarrow> byte list" where
  "utf8_encode s =
     concat (map (\<lambda>c. let n = (of_char c :: int)
                       in if n < 128 then [n] else [192 + n div 64, 128 + n mod 64]) s)"

text \<open>\<open>hashlib.md5(task_content.encode('utf-8')).hexdigest()[:8]\<close>\<close>

definition generate_task_hash :: "string \<Rightarrow> string" where
  "generate_task_hash task_content =
     take 8 (hexdigest (md5_digest (utf8_encode task_content)))"

section \<open>Reading the task file\<close>

text \<open>
  The task file is what \<open>TASKS_PATH.read_text\<close> returns, or \<open>None\<close> when
  \<open>TASKS_PATH.exists()\<close> is false.  The body of the \<open>for line in raw.split('\n')\<close> loop
  of \<open>load_tasks_raw\<close>, on the pair \<open>(tasks, current_task)\<close>:
\<close>

fun raw_step :: "string list \<times> string list \<Rightarrow> string \<Rightarrow> string list \<times> string list" where
  "raw_step (tasks, current_task) line0 =
     (let line = rstrip line0
      in if strip line = [] then
           (if current_task \<noteq> [] then (tasks @ [strip (join_nl current_task)], [])
            else (tasks, current_task))
         else (tasks, current_task @ [line]))"

definition load_tasks_raw :: "string option \<Rightarrow> error + string list" where
  "load_tasks_raw file =
     (case file of
        None \<Rightarrow> Inl FileNotFoundError
      | Some raw \<Rightarrow>
          (let (tasks, current_task) = foldl raw_step ([], []) (split_nl raw);
               tasks = (if current_task \<noteq> [] then tasks @ [strip (join_nl current_task)]
                        else tasks)
           in if tasks = [] then Inl ValueError else Inr tasks))"

text \<open>\<open>load_tasks\<close>: every task prefixed with the rule text (the result of \<open>load_rules\<close>,
  taken as a parameter) when that text is not empty.\<close>

definition load_tasks :: "string \<Rightarrow> string option \<Rightarrow> error + string list" where
  "load_tasks rules file =
     (case load_tasks_raw file of
        Inl e \<Rightarrow> Inl e
      | Inr raw_tasks \<Rightarrow>
          (if rules \<noteq> [] then Inr (map (\<lambda>task. rules @ [CHR 0x0A, CHR 0x0A] @ task) raw_tasks)
           else Inr raw_tasks))"

text \<open>The loop body of \<open>get_current_task_hashes\<close>, on
  \<open>(task_hashes, current_task, task_index)\<close>.  The dictionary is an association list in
  insertion order; \<open>d[k] = v\<close> is \<^const>\<open>AList.update\<close>.\<close>

fun hash_step ::
  "(int \<times> string) list \<times> string list \<times> int \<Rightarrow> string
     \<Rightarrow> (int \<times> string) list \<times> string list \<times> int" where
  "hash_step (task_hashes, current_task, task_index) line0 =
     (let line = rstrip line0
      in if strip line = [] then
           (if current_task \<noteq> [] then
              (let task_content = strip (join_nl current_task)
               in if \<not> startswith_hash task_content then
                    (AList.update task_index (generate_task_hash task_content) task_hashes,
                     [], task_index + 1)
                  else (task_hashes, [], task_index))
            else (task_hashes, current_task, task_index))
         else (task_hashes, current_task @ [line], task_index))"

definition get_current_task_hashes :: "string option \<Rightarrow> (int \<times> string) list" where
  "get_current_task_hashes file =
     (case file of
        None \<Rightarrow> []
      | Some raw \<Rightarrow>
          (let (task_hashes, current_task, task_index) =
                 foldl hash_step ([], [], 0) (split_nl raw)
           in if current_task \<noteq> [] then
                (let task_content = strip (join_nl current_task)
                 in if \<not> startswith_hash task_content then
                      AList.update task_index (generate_task_hash task_content) task_hashes
                    else task_hashes)
              else task_hashes))"

section \<open>The state dictionary and its file\<close>

text \<open>\<open>STATE\<close> is a dictionary whose keys may be missing: each field is an option,
  \<open>None\<close> for a missing key.  \<open>STATE_FILE\<close> is what \<open>save_state\<close> last wrote to
  \<open>STATE_PATH\<close>.\<close>

record state =
  index :: "int option"
  completed_tasks :: "int set option"
  completed_hashes :: "string set option"
  task_hashes :: "(int \<times> string) list option"

record world =
  STATE :: state
  STATE_FILE :: "state option"

definition save_state :: "state \<Rightarrow> world \<Rightarrow> world" where
  "save_state s w = w\<lparr>STATE_FILE := Some s\<rparr>"

text \<open>\<open>state.get("index", 0)\<close>, \<open>state.get("completed_tasks", set())\<close>,
  \<open>state.get("completed_hashes", set())\<close>.\<close>

definition get_index :: "state \<Rightarrow> int" where
  "get_index s = (case index s of None \<Rightarrow> 0 | Some i \<Rightarrow> i)"

definition get_completed_tasks :: "state \<Rightarrow> int set" where
  "get_completed_tasks s = (case completed_tasks s of None \<Rightarrow> {} | Some c \<Rightarrow> c)"

definition get_completed_hashes :: "state \<Rightarrow> string set" where
  "get_completed_hashes s = (case completed_hashes s of None \<Rightarrow> {} | Some c \<Rightarrow> c)"

definition clamp_index :: "int \<Rightarrow> int \<Rightarrow> int" where
  "clamp_index idx n = (if idx < 0 then 0 else if idx > n then n else idx)"

section \<open>sync\_state\_with\_tasks\<close>

text \<open>The body of \<open>for task_num, task_hash in current_hashes.items()\<close>, on
  \<open>(new_completed_tasks, new_completed_hashes)\<close>.\<close>

fun sync_step :: "string set \<Rightarrow> int set \<times> string set \<Rightarrow> int \<times> string \<Rightarrow> int set \<times> string set" where
  "sync_step ch (new_completed_tasks, new_completed_hashes) (task_num, task_hash) =
     (if task_hash \<in> ch
      then (insert task_num new_completed_tasks, insert task_hash new_completed_hashes)
      else (new_completed_tasks, new_completed_hashes))"

definition sync_state_with_tasks :: "string option \<Rightarrow> world \<Rightarrow> state \<times> world" where
  "sync_state_with_tasks file w =
     (let current_state = STATE w;
          current_hashes = get_current_task_hashes file;
          current_state = (if task_hashes current_state = None
                           then current_state\<lparr>task_hashes := Some []\<rparr> else current_state);
          current_state = (if completed_hashes current_state = None
                           then current_state\<lparr>completed_hashes := Some {}\<rparr> else current_state);
          (new_completed_tasks, new_completed_hashes) =
             foldl (sync_step (get_completed_hashes current_state)) ({}, {}) current_hashes;
          current_state = current_state\<lparr>completed_tasks := Some new_completed_tasks,
                                         completed_hashes := Some new_completed_hashes,
                                         task_hashes := Some current_hashes\<rparr>;
          total_tasks = int (length current_hashes);
          current_state = (if get_index current_state \<ge> total_tasks
                           then current_state\<lparr>index := Some total_tasks\<rparr> else current_state)
      in (current_state, save_state current_state w))"

section \<open>The tools\<close>

text \<open>A tool returns a message; the model keeps the data the message is built from.\<close>

datatype reply =
    Completed int string string
  | Uncompleted int string
  | AlreadyIncomplete int
  | AllCompleted
  | InvalidCount
  | Prepared int bool "(int \<times> string) list" "(int \<times> string) list"
  | Synced nat nat int "(int \<times> bool \<times> string \<times> string option) list"
  | SyncFailed error

text \<open>\<open>sync_tasks\<close>: \<open>STATE = sync_state_with_tasks()\<close>, then the summary; any exception
  (here: of \<open>load_tasks_raw\<close>) is caught and reported in the message.  A line of the
  summary is \<open>(i, done, first_line, task_hash)\<close>, \<open>None\<close> for \<open>"N/A"\<close>.\<close>

definition sync_tasks :: "string option \<Rightarrow> world \<Rightarrow> reply \<times> world" where
  "sync_tasks file w =
     (let (s, w) = sync_state_with_tasks file w;
          w = w\<lparr>STATE := s\<rparr>
      in case load_tasks_raw file of
           Inl e \<Rightarrow> (SyncFailed e, w)
         | Inr current_tasks \<Rightarrow>
             (let total_tasks = length (filter (\<lambda>task. \<not> startswith_hash (strip task)) current_tasks);
                  completed_count = card (get_completed_tasks (STATE w));
                  current_index = get_index (STATE w);
                  listing =
                    map (\<lambda>(i, task). (i, i \<in> get_completed_tasks (STATE w), first_line task,
                                       map_of (case task_hashes (STATE w) of None \<Rightarrow> [] | Some d \<Rightarrow> d) i))
                      (filter (\<lambda>(i, task). \<not> startswith_hash (strip task))
                         (zip (map int [0..<length current_tasks]) current_tasks))
              in (Synced total_tasks completed_count current_index listing, w)))"

text \<open>\<open>tasks_complete\<close>.  An exception leaves the mutations of \<open>STATE\<close> made before it in
  place; the state file is written only by \<open>save_state\<close>.\<close>

definition tasks_complete :: "int \<Rightarrow> string option \<Rightarrow> world \<Rightarrow> (error + reply) \<times> world" where
  "tasks_complete idx file w =
     (case load_tasks_raw file of
        Inl e \<Rightarrow> (Inl e, w)
      | Inr steps \<Rightarrow>
          (let n = clamp_index idx (int (length steps));
               S = STATE w;
               S = (if completed_tasks S = None then S\<lparr>completed_tasks := Some {}\<rparr> else S);
               S = (if completed_hashes S = None then S\<lparr>completed_hashes := Some {}\<rparr> else S)
           in case py_index steps n of
                Inl e \<Rightarrow> (Inl e, w\<lparr>STATE := S\<rparr>)
              | Inr task_content \<Rightarrow>
                  (let task_hash = generate_task_hash task_content;
                       S = S\<lparr>completed_tasks := Some (insert n (get_completed_tasks S))\<rparr>;
                       S = S\<lparr>completed_hashes := Some (insert task_hash (get_completed_hashes S))\<rparr>;
                       S = (if task_hashes S = None then S\<lparr>task_hashes := Some []\<rparr> else S);
                       S = S\<lparr>task_hashes :=
                              Some (AList.update n task_hash
                                     (case task_hashes S of None \<Rightarrow> [] | Some d \<Rightarrow> d))\<rparr>
                   in (Inr (Completed n task_hash (first_line task_content)),
                       save_state S (w\<lparr>STATE := S\<rparr>)))))"

text \<open>\<open>tasks_uncomplete\<close>: the removal is saved before \<open>steps[n]\<close> is read for the
  message.\<close>

definition tasks_uncomplete :: "int \<Rightarrow> string option \<Rightarrow> world \<Rightarrow> (error + reply) \<times> world" where
  "tasks_uncomplete idx file w =
     (case load_tasks_raw file of
        Inl e \<Rightarrow> (Inl e, w)
      | Inr steps \<Rightarrow>
          (let n = clamp_index idx (int (length steps))
           in if completed_tasks (STATE w) \<noteq> None \<and> n \<in> get_completed_tasks (STATE w) then
                (let S = (STATE w)\<lparr>completed_tasks := Some (get_completed_tasks (STATE w) - {n})\<rparr>;
                     w = save_state S (w\<lparr>STATE := S\<rparr>)
                 in case py_index steps n of
                      Inl e \<Rightarrow> (Inl e, w)
                    | Inr task \<Rightarrow> (Inr (Uncompleted n (first_line task)), w))
              else (Inr (AlreadyIncomplete n), w)))"

text \<open>The \<open>for i in range(current_index, current_index + count)\<close> loop of \<open>tasks_auto\<close>, on
  \<open>(tasks_to_execute, execution_results, STATE["completed_tasks"])\<close>; an IndexError stops
  it with what was added so far.\<close>

fun auto_loop ::
  "string list \<Rightarrow> string list \<Rightarrow> int list
     \<Rightarrow> (int \<times> string) list \<times> (int \<times> string) list \<times> int set
     \<Rightarrow> error option \<times> (int \<times> string) list \<times> (int \<times> string) list \<times> int set" where
  "auto_loop steps_raw steps_with_rules [] acc = (None, acc)"
| "auto_loop steps_raw steps_with_rules (i # is) (tasks_to_execute, execution_results, ct) =
     (if i < int (length steps_raw) then
        (case py_index steps_raw i of
           Inl e \<Rightarrow> (Some e, tasks_to_execute, execution_results, ct)
         | Inr task \<Rightarrow>
             (let tasks_to_execute = tasks_to_execute @ [(i, first_line task)]
              in if i < int (length steps_with_rules) then
                   (case py_index steps_with_rules i of
                      Inl e \<Rightarrow> (Some e, tasks_to_execute, execution_results, ct)
                    | Inr full_task \<Rightarrow>
                        auto_loop steps_raw steps_with_rules is
                          (tasks_to_execute, execution_results @ [(i, full_task)], insert i ct))
                 else auto_loop steps_raw steps_with_rules is
                        (tasks_to_execute, execution_results, insert i ct)))
      else auto_loop steps_raw steps_with_rules is (tasks_to_execute, execution_results, ct))"

text \<open>\<open>tasks_auto(count)\<close>, \<open>count\<close> an integer or \<open>None\<close>; \<open>rules\<close> is the text
  \<open>load_rules\<close> returns.\<close>

definition tasks_auto :: "int option \<Rightarrow> string \<Rightarrow> string option \<Rightarrow> world \<Rightarrow> (error + reply) \<times> world" where
  "tasks_auto count0 rules file w =
     (case load_tasks rules file of
        Inl e \<Rightarrow> (Inl e, w)
      | Inr steps_with_rules \<Rightarrow>
     (case load_tasks_raw file of
        Inl e \<Rightarrow> (Inl e, w)
      | Inr steps_raw \<Rightarrow>
          (let current_index = get_index (STATE w);
               total_tasks = int (length steps_raw)
           in if current_index \<ge> total_tasks then (Inr AllCompleted, w)
              else
                (let S = STATE w;
                     S = (if completed_tasks S = None then S\<lparr>completed_tasks := Some {}\<rparr> else S);
                     remaining_tasks = total_tasks - current_index;
                     count = (case count0 of None \<Rightarrow> remaining_tasks | Some c \<Rightarrow> c);
                     count = (if count > remaining_tasks then remaining_tasks else count)
                 in if count \<le> 0 then (Inr InvalidCount, w\<lparr>STATE := S\<rparr>)
                    else
                      (case auto_loop steps_raw steps_with_rules
                              [current_index .. current_index + count - 1]
                              ([], [], get_completed_tasks S) of
                         (Some e, tasks_to_execute, execution_results, ct) \<Rightarrow>
                           (Inl e, w\<lparr>STATE := S\<lparr>completed_tasks := Some ct\<rparr>\<rparr>)
                       | (None, tasks_to_execute, execution_results, ct) \<Rightarrow>
                           (let S = S\<lparr>completed_tasks := Some ct\<rparr>;
                                S = S\<lparr>index := Some (current_index + count)\<rparr>
                            in (Inr (Prepared count (count = remaining_tasks)
                                       tasks_to_execute execution_results),
                                save_state S (w\<lparr>STATE := S\<rparr>))))))))"

section \<open>Auxiliary notions for the statements\<close>

text \<open>The blocks \<open>load_tasks_raw\<close> has collected when it tests \<open>if not tasks\<close>.\<close>

definition blocks :: "string \<Rightarrow> string list" where
  "blocks raw =
     (let (tasks, current_task) = foldl raw_step ([], []) (split_nl raw)
      in if current_task \<noteq> [] then tasks @ [strip (join_nl current_task)] else tasks)"

text \<open>A dictionary that gives the tasks \<open>ts\<close> the keys \<open>0, 1, ...\<close> in order, each with its
  fingerprint.\<close>

definition fingerprints :: "string list \<Rightarrow> (int \<times> string) list" where
  "fingerprints ts = zip (map int [0..<length ts]) (map generate_task_hash ts)"

definition non_comments :: "string list \<Rightarrow> string list" where
  "non_comments ts = filter (\<lambda>t. \<not> startswith_hash t) ts"

text \<open>The splitter in the words of the design: the lines are cut at blank lines into runs
  of consecutive non-blank lines (right-trimmed); every non-empty run, joined and trimmed,
  is one block, the trailing run included.\<close>

fun line_groups :: "string list \<Rightarrow> string list list" where
  "line_groups [] = [Nil]"
| "line_groups (l # ls) =
     (if strip (rstrip l) = [] then [] # line_groups ls
      else (case line_groups ls of [] \<Rightarrow> [rstrip l] # [] | g # gs \<Rightarrow> (rstrip l # g) # gs))"

definition emit :: "string list list \<Rightarrow> string list" where
  "emit gs = map (\<lambda>g. strip (join_nl g)) (filter (\<lambda>g. g \<noteq> []) gs)"

definition spec_blocks :: "string \<Rightarrow> string list" where
  "spec_blocks raw = emit (line_groups (split_nl raw))"

text \<open>The count of \<open>batchAdvance\<close> in the words of the design:
  \<open>min(count ?? remaining, remaining)\<close>.\<close>

definition spec_resolved_count :: "int option \<Rightarrow> int \<Rightarrow> int" where
  "spec_resolved_count count0 remaining =
     min (case count0 of None \<Rightarrow> remaining | Some c \<Rightarrow> c) remaining"

section \<open>Example inputs\<close>

definition state_A_done :: state where
  "state_A_done = \<lparr>index = Some 0, completed_tasks = Some {0},
                    completed_hashes = Some {generate_task_hash ''A''},
                    task_hashes = Some [(0, generate_task_hash ''A'')]\<rparr>"

definition world_A_done :: world where
  "world_A_done = \<lparr>STATE = state_A_done, STATE_FILE = Some state_A_done\<rparr>"

definition state_negative :: state where
  "state_negative = \<lparr>index = Some (- 1), completed_tasks = None,
                      completed_hashes = None, task_hashes = None\<rparr>"

definition state_initial :: state where
  "state_initial = \<lparr>index = Some 0, completed_tasks = None,
                     completed_hashes = None, task_hashes = None\<rparr>"

definition state_past_end :: state where
  "state_past_end = \<lparr>index = Some 5, completed_tasks = None,
                      completed_hashes = None, task_hashes = None\<rparr>"


definition file_A_B_C :: "string option" where
  "file_A_B_C = Some ''A\<newline>\<newline>B\<newline>\<newline>C''"

definition file_c_A :: "string option" where
  "file_c_A = Some ''# c\<newline>\<newline>A''"

definition world_initial :: world where
  "world_initial = \<lparr>STATE = state_initial, STATE_FILE = None\<rparr>"

definition world_at_end :: world where
  "world_at_end = \<lparr>STATE = \<lparr>index = Some 3, completed_tasks = Some {0, 1, 2},
                                 completed_hashes = None, task_hashes = None\<rparr>,
                    STATE_FILE = None\<rparr>"

definition world_B_done :: world where
  "world_B_done = \<lparr>STATE = \<lparr>index = Some 0, completed_tasks = Some {1},
                                 completed_hashes = Some {generate_task_hash ''B''},
                                 task_hashes = Some [(1, generate_task_hash ''B'')]\<rparr>,
                    STATE_FILE = None\<rparr>"

section \<open>Facts about reconciliation\<close>

lemma foldl_sync_step:
  "foldl (sync_step ch) (a, b) items =
     (a \<union> {k. \<exists>h. (k, h) \<in> set items \<and> h \<in> ch}, b \<union> {h. h \<in> snd ` set items \<and> h \<in> ch})"
  by (induction items arbitrary: a b) (auto simp: image_iff)

lemma sync_index:
  "index (fst (sync_state_with_tasks f w)) =
     (if get_index (STATE w) \<ge> int (length (get_current_task_hashes f))
      then Some (int (length (get_current_task_hashes f))) else index (STATE w))"
  by (simp add: sync_state_with_tasks_def Let_def get_index_def foldl_sync_step split: prod.splits)

lemma sync_completed_hashes:
  "completed_hashes (fst (sync_state_with_tasks f w)) =
     Some (get_completed_hashes (STATE w) \<inter> snd ` set (get_current_task_hashes f))"
  by (auto simp: sync_state_with_tasks_def Let_def get_index_def get_completed_hashes_def
      foldl_sync_step split: prod.splits option.splits)

lemma sync_completed_tasks:
  "completed_tasks (fst (sync_state_with_tasks f w)) =
     Some {k. \<exists>h. (k, h) \<in> set (get_current_task_hashes f) \<and> h \<in> get_completed_hashes (STATE w)}"
  by (auto simp: sync_state_with_tasks_def Let_def get_index_def get_completed_hashes_def
      foldl_sync_step split: prod.splits option.splits)

lemma sync_task_hashes:
  "task_hashes (fst (sync_state_with_tasks f w)) = Some (get_current_task_hashes f)"
  by (simp add: sync_state_with_tasks_def Let_def foldl_sync_step split: prod.splits)

lemma sync_saved:
  "snd (sync_state_with_tasks f w) = w\<lparr>STATE_FILE := Some (fst (sync_state_with_tasks f w))\<rparr>"
  by (simp add: sync_state_with_tasks_def Let_def save_state_def split: prod.splits)

lemmas str_eval = rstrip_def strip_def lstrip_def isspace_def

lemma hashes_A: "get_current_task_hashes (Some ''A'') = [(0, generate_task_hash ''A'')]"
  by (simp add: get_current_task_hashes_def str_eval)

lemma hashes_empty: "get_current_task_hashes (Some '''') = []"
  by (simp add: get_current_task_hashes_def str_eval)

lemma sync_state_eq:
  "fst (sync_state_with_tasks f w) =
     (STATE w)\<lparr>index := index (fst (sync_state_with_tasks f w)),
               completed_tasks := completed_tasks (fst (sync_state_with_tasks f w)),
               completed_hashes := completed_hashes (fst (sync_state_with_tasks f w)),
               task_hashes := task_hashes (fst (sync_state_with_tasks f w))\<rparr>"
  by (simp add: sync_state_with_tasks_def Let_def split: prod.splits)

lemma sync_tasks_world:
  "snd (sync_tasks f w) =
     \<lparr>STATE = fst (sync_state_with_tasks f w),
      STATE_FILE = Some (fst (sync_state_with_tasks f w))\<rparr>"
  by (cases "sync_state_with_tasks f w")
     (use sync_saved [of f w] in \<open>simp add: sync_tasks_def Let_def split: sum.splits\<close>)

section \<open>Facts about the parser\<close>

subsection \<open>The two parsing loops agree up to comment blocks\<close>

lemma load_tasks_raw_blocks:
  "load_tasks_raw (Some raw) = (if blocks raw = [] then Inl ValueError else Inr (blocks raw))"
  by (simp add: load_tasks_raw_def blocks_def Let_def split: prod.splits)

lemma update_fresh:
  "k \<notin> fst ` set al \<Longrightarrow> AList.update k v al = al @ [(k, v)]"
  by (induction al) auto

lemma fingerprints_snoc:
  "fingerprints (ts @ [t]) = fingerprints ts @ [(int (length ts), generate_task_hash t)]"
  by (simp add: fingerprints_def)

lemma fingerprints_keys: "fst ` set (fingerprints ts) = int ` {0..<length ts}"
proof -
  have "fst ` set (fingerprints ts) = set (map fst (fingerprints ts))"
    by simp
  also have "\<dots> = set (map int [0..<length ts])"
    by (simp only: fingerprints_def) (simp add: map_fst_zip)
  finally show ?thesis by simp
qed

lemma update_fingerprints:
  "AList.update (int (length ts)) (generate_task_hash t) (fingerprints ts) = fingerprints (ts @ [t])"
  by (simp add: fingerprints_snoc update_fresh fingerprints_keys image_iff)

lemma hash_step_raw_step:
  "hash_step (fingerprints (non_comments tasks), cur, int (length (non_comments tasks))) l =
     (case raw_step (tasks, cur) l of
        (tasks', cur') \<Rightarrow> (fingerprints (non_comments tasks'), cur', int (length (non_comments tasks'))))"
  by (simp add: Let_def update_fingerprints non_comments_def)

lemma foldl_hash_step:
  "foldl hash_step (fingerprints (non_comments tasks), cur, int (length (non_comments tasks))) ls =
     (case foldl raw_step (tasks, cur) ls of
        (tasks', cur') \<Rightarrow> (fingerprints (non_comments tasks'), cur', int (length (non_comments tasks'))))"
proof (induction ls arbitrary: tasks cur)
  case Nil
  show ?case by simp
next
  case (Cons l ls)
  obtain t1 c1 where step: "raw_step (tasks, cur) l = (t1, c1)"
    by (cases "raw_step (tasks, cur) l")
  have "foldl hash_step (fingerprints (non_comments tasks), cur, int (length (non_comments tasks))) (l # ls)
      = foldl hash_step (fingerprints (non_comments t1), c1, int (length (non_comments t1))) ls"
    by (simp only: foldl_Cons hash_step_raw_step step prod.case)
  also have "\<dots> = (case foldl raw_step (t1, c1) ls of
        (tasks', cur') \<Rightarrow> (fingerprints (non_comments tasks'), cur', int (length (non_comments tasks'))))"
    by (rule Cons.IH)
  finally show ?case by (simp only: foldl_Cons step)
qed

lemma hashes_of_blocks:
  "get_current_task_hashes (Some raw) = fingerprints (non_comments (blocks raw))"
proof -
  obtain tasks cur where r: "foldl raw_step ([], []) (split_nl raw) = (tasks, cur)"
    by (cases "foldl raw_step ([], []) (split_nl raw)")
  have "foldl hash_step ([], [], 0) (split_nl raw) =
      foldl hash_step (fingerprints (non_comments []), [], int (length (non_comments []))) (split_nl raw)"
    by (simp add: fingerprints_def non_comments_def)
  also have "\<dots> = (fingerprints (non_comments tasks), cur, int (length (non_comments tasks)))"
    by (simp only: foldl_hash_step r prod.case)
  finally have h: "foldl hash_step ([], [], 0) (split_nl raw) =
      (fingerprints (non_comments tasks), cur, int (length (non_comments tasks)))" .
  show ?thesis
    by (simp add: get_current_task_hashes_def blocks_def h r Let_def update_fingerprints)
       (simp add: non_comments_def)
qed

subsection \<open>The parsing loop computes the blocks of the design\<close>

lemma line_groups_nonempty: "line_groups ls \<noteq> []"
  by (induction ls) (auto split: list.splits)

lemma emit_append: "emit (xs @ ys) = emit xs @ emit ys"
  by (simp add: emit_def)

lemma emit_single: "emit [g] = (if g \<noteq> [] then [strip (join_nl g)] else [])"
  by (simp add: emit_def)

lemma foldl_raw_step:
  "foldl raw_step (tasks, cur) ls =
     (case line_groups ls of
        [] \<Rightarrow> (tasks, cur)
      | g # gs \<Rightarrow> (tasks @ emit (butlast ((cur @ g) # gs)), last ((cur @ g) # gs)))"
proof (induction ls arbitrary: tasks cur)
  case Nil
  show ?case by (simp add: emit_def)
next
  case (Cons l ls)
  obtain g gs where G: "line_groups ls = g # gs"
    using line_groups_nonempty [of ls] by (cases "line_groups ls") auto
  show ?case
  proof (cases "strip (rstrip l) = []")
    case True
    have "foldl raw_step (tasks, cur) (l # ls) = foldl raw_step (tasks @ emit [cur], []) ls"
      using True by (simp add: emit_single)
    also have "\<dots> = ((tasks @ emit [cur]) @ emit (butlast (g # gs)), last (g # gs))"
      by (simp only: Cons.IH G list.case append_Nil)
    also have "\<dots> = (tasks @ emit (butlast ((cur @ []) # g # gs)), last ((cur @ []) # g # gs))"
      using emit_append [of "[cur]" "butlast (g # gs)"] by simp
    finally show ?thesis using True by (simp add: G)
  next
    case False
    have "foldl raw_step (tasks, cur) (l # ls) = foldl raw_step (tasks, cur @ [rstrip l]) ls"
      using False by simp
    also have "\<dots> = (tasks @ emit (butlast (((cur @ [rstrip l]) @ g) # gs)), last (((cur @ [rstrip l]) @ g) # gs))"
      by (simp only: Cons.IH G list.case)
    finally show ?thesis using False by (simp add: G)
  qed
qed

lemma blocks_spec: "blocks raw = spec_blocks raw"
proof -
  obtain g gs where G: "line_groups (split_nl raw) = g # gs"
    using line_groups_nonempty [of "split_nl raw"] by (cases "line_groups (split_nl raw)") auto
  have f: "foldl raw_step ([], []) (split_nl raw) = (emit (butlast (g # gs)), last (g # gs))"
    by (simp add: foldl_raw_step G)
  have "blocks raw = emit (butlast (g # gs)) @ emit [last (g # gs)]"
    by (simp add: blocks_def f emit_single)
  also have "\<dots> = emit (butlast (g # gs) @ [last (g # gs)])"
    by (simp only: emit_append)
  also have "\<dots> = emit (g # gs)"
    by (simp only: append_butlast_last_id list.distinct not_False_eq_True)
  finally show ?thesis by (simp add: spec_blocks_def G)
qed

subsection \<open>Trimming, blank lines and empty files\<close>

lemma dropWhile_all_iff: "(\<forall>x\<in>set (dropWhile P xs). P x) \<longleftrightarrow> (\<forall>x\<in>set xs. P x)"
proof
  assume a: "\<forall>x\<in>set (dropWhile P xs). P x"
  have "dropWhile P xs = []"
  proof (rule ccontr)
    assume n: "dropWhile P xs \<noteq> []"
    then have "\<not> P (hd (dropWhile P xs))" by (rule hd_dropWhile)
    moreover have "hd (dropWhile P xs) \<in> set (dropWhile P xs)" using n by (rule hd_in_set)
    ultimately show False using a by blast
  qed
  then show "\<forall>x\<in>set xs. P x" by (simp add: dropWhile_eq_Nil_conv)
next
  assume "\<forall>x\<in>set xs. P x"
  then show "\<forall>x\<in>set (dropWhile P xs). P x" by (blast dest: set_dropWhileD)
qed

lemma last_dropWhile: "dropWhile P xs \<noteq> [] \<Longrightarrow> last (dropWhile P xs) = last xs"
proof (induction xs)
  case Nil
  then show ?case by simp
next
  case (Cons a xs)
  show ?case
  proof (cases "P a")
    case True
    then have d: "dropWhile P (a # xs) = dropWhile P xs" by simp
    then have n: "dropWhile P xs \<noteq> []" using Cons.prems by simp
    then have "xs \<noteq> []" by auto
    then show ?thesis using Cons.IH [OF n] d by simp
  next
    case False
    then show ?thesis by simp
  qed
qed

lemma rstrip_all_iff: "(\<forall>c\<in>set (rstrip s). isspace c) \<longleftrightarrow> (\<forall>c\<in>set s. isspace c)"
  using dropWhile_all_iff [of isspace "rev s"] by (simp add: rstrip_def)

lemma strip_Nil_iff: "strip s = [] \<longleftrightarrow> (\<forall>c\<in>set s. isspace c)"
proof -
  have "strip s = [] \<longleftrightarrow> (\<forall>c\<in>set (rstrip s). isspace c)"
    by (simp add: strip_def lstrip_def dropWhile_eq_Nil_conv)
  then show ?thesis by (simp only: rstrip_all_iff)
qed

lemma blank_iff: "strip (rstrip l) = [] \<longleftrightarrow> (\<forall>c\<in>set l. isspace c)"
  by (simp only: strip_Nil_iff rstrip_all_iff)

lemma filter_line_groups_Nil_iff:
  "filter (\<lambda>g. g \<noteq> []) (line_groups ls) = [] \<longleftrightarrow> (\<forall>l\<in>set ls. strip (rstrip l) = [])"
proof (induction ls)
  case Nil
  show ?case by simp
next
  case (Cons l ls)
  show ?case
  proof (cases "strip (rstrip l) = []")
    case True
    then show ?thesis using Cons.IH by simp
  next
    case False
    then show ?thesis by (simp split: list.splits)
  qed
qed

lemma spec_blocks_Nil_iff:
  "spec_blocks raw = [] \<longleftrightarrow> (\<forall>l\<in>set (split_nl raw). strip (rstrip l) = [])"
  by (simp add: spec_blocks_def emit_def filter_line_groups_Nil_iff)

lemma split_nl_nonempty: "split_nl s \<noteq> []"
  by (induction s) (auto split: list.splits)

lemma isspace_newline: "isspace (CHR 0x0A)"
  by (simp add: isspace_def)

lemma split_nl_all_space:
  "(\<forall>l\<in>set (split_nl s). \<forall>c\<in>set l. isspace c) \<longleftrightarrow> (\<forall>c\<in>set s. isspace c)"
proof (induction s)
  case Nil
  show ?case by simp
next
  case (Cons a s)
  obtain l ls where L: "split_nl s = l # ls"
    using split_nl_nonempty [of s] by (cases "split_nl s") auto
  show ?case
  proof (cases "a = CHR 0x0A")
    case True
    have "(\<forall>l\<in>set (split_nl (a # s)). \<forall>c\<in>set l. isspace c)
        \<longleftrightarrow> (\<forall>l\<in>set (split_nl s). \<forall>c\<in>set l. isspace c)"
      using True by simp
    also have "\<dots> \<longleftrightarrow> (\<forall>c\<in>set s. isspace c)"
      by (rule Cons.IH)
    also have "\<dots> \<longleftrightarrow> (\<forall>c\<in>set (a # s). isspace c)"
      using True isspace_newline by simp
    finally show ?thesis .
  next
    case False
    have "(\<forall>l\<in>set (split_nl (a # s)). \<forall>c\<in>set l. isspace c)
        \<longleftrightarrow> isspace a \<and> (\<forall>l\<in>set (split_nl s). \<forall>c\<in>set l. isspace c)"
      using False by (auto simp: L)
    also have "\<dots> \<longleftrightarrow> isspace a \<and> (\<forall>c\<in>set s. isspace c)"
      by (simp only: Cons.IH)
    also have "\<dots> \<longleftrightarrow> (\<forall>c\<in>set (a # s). isspace c)"
      by simp
    finally show ?thesis .
  qed
qed

lemma blocks_Nil_iff: "blocks raw = [] \<longleftrightarrow> (\<forall>c\<in>set raw. isspace c)"
proof -
  have "blocks raw = [] \<longleftrightarrow> (\<forall>l\<in>set (split_nl raw). strip (rstrip l) = [])"
    by (simp only: blocks_spec spec_blocks_Nil_iff)
  also have "\<dots> \<longleftrightarrow> (\<forall>l\<in>set (split_nl raw). \<forall>c\<in>set l. isspace c)"
    by (simp only: blank_iff)
  also have "\<dots> \<longleftrightarrow> (\<forall>c\<in>set raw. isspace c)"
    by (rule split_nl_all_space)
  finally show ?thesis .
qed

lemma lstrip_fix: "s = [] \<or> \<not> isspace (hd s) \<Longrightarrow> lstrip s = s"
proof (cases s)
  case Nil
  then show ?thesis by (simp add: lstrip_def)
next
  case (Cons a t)
  assume "s = [] \<or> \<not> isspace (hd s)"
  then have "\<not> isspace a" using Cons by simp
  then show ?thesis using Cons by (simp add: lstrip_def)
qed

lemma rstrip_fix: "s = [] \<or> \<not> isspace (last s) \<Longrightarrow> rstrip s = s"
proof (cases s rule: rev_cases)
  case Nil
  then show ?thesis by (simp add: rstrip_def)
next
  case (snoc ys y)
  assume "s = [] \<or> \<not> isspace (last s)"
  then have "\<not> isspace y" using snoc by simp
  then show ?thesis using snoc by (simp add: rstrip_def)
qed

lemma rstrip_last: "rstrip s = [] \<or> \<not> isspace (last (rstrip s))"
proof (cases "dropWhile isspace (rev s) = []")
  case True
  then show ?thesis by (simp add: rstrip_def)
next
  case False
  then have "\<not> isspace (hd (dropWhile isspace (rev s)))" by (rule hd_dropWhile)
  then show ?thesis using False by (simp add: rstrip_def last_rev)
qed

lemma strip_hd: "strip s = [] \<or> \<not> isspace (hd (strip s))"
  unfolding strip_def lstrip_def using hd_dropWhile [of isspace "rstrip s"] by blast

lemma strip_last: "strip s = [] \<or> \<not> isspace (last (strip s))"
proof (cases "strip s = []")
  case True
  then show ?thesis by simp
next
  case False
  have n: "dropWhile isspace (rstrip s) \<noteq> []"
    using False unfolding strip_def lstrip_def .
  then have "last (dropWhile isspace (rstrip s)) = last (rstrip s)"
    by (rule last_dropWhile)
  then have l: "last (strip s) = last (rstrip s)"
    unfolding strip_def lstrip_def .
  have "rstrip s \<noteq> []"
    using n by auto
  then have "\<not> isspace (last (rstrip s))"
    using rstrip_last [of s] by blast
  then show ?thesis unfolding l by (rule disjI2)
qed

lemma strip_idem: "strip (strip s) = strip s"
proof -
  have r: "rstrip (strip s) = strip s" using strip_last [of s] by (rule rstrip_fix)
  have h: "lstrip (strip s) = strip s" using strip_hd [of s] by (rule lstrip_fix)
  have "strip (strip s) = lstrip (rstrip (strip s))" by (rule strip_def)
  also have "\<dots> = lstrip (strip s)" by (simp only: r)
  also have "\<dots> = strip s" by (rule h)
  finally show ?thesis .
qed

lemma emit_stripped: "t \<in> set (emit gs) \<Longrightarrow> strip t = t"
  by (auto simp: emit_def strip_idem)

lemma blocks_stripped: "t \<in> set (blocks raw) \<Longrightarrow> strip t = t"
  unfolding blocks_spec spec_blocks_def by (rule emit_stripped)

subsection \<open>Blank lines around the file content\<close>











section \<open>Facts about the completion tools\<close>

lemma py_index_in_range:
  "0 \<le> i \<Longrightarrow> i < int (length xs) \<Longrightarrow> py_index xs i = Inr (xs ! nat i)"
  by (simp add: py_index_def)

lemma py_index_at_length: "py_index xs (int (length xs)) = Inl IndexError"
  by (simp add: py_index_def)

lemma clamp_index_range: "0 \<le> n \<Longrightarrow> 0 \<le> clamp_index idx n \<and> clamp_index idx n \<le> n"
  by (simp add: clamp_index_def)

lemma clamp_index_above: "0 \<le> n \<Longrightarrow> n \<le> idx \<Longrightarrow> clamp_index idx n = n"
  by (simp add: clamp_index_def)

lemma tasks_complete_out_of_range:
  assumes "load_tasks_raw f = Inr steps" and "int (length steps) \<le> idx"
  shows "fst (tasks_complete idx f w) = Inl IndexError
         \<and> STATE_FILE (snd (tasks_complete idx f w)) = STATE_FILE w"
proof -
  have c: "clamp_index idx (int (length steps)) = int (length steps)"
    using assms(2) by (simp add: clamp_index_above)
  show ?thesis
    by (simp add: tasks_complete_def assms(1) c py_index_at_length Let_def)
qed

lemma tasks_complete_in_range:
  assumes "load_tasks_raw f = Inr steps"
    and "clamp_index idx (int (length steps)) = n" and "n < int (length steps)"
  shows "tasks_complete idx f w =
     (Inr (Completed n (generate_task_hash (steps ! nat n)) (first_line (steps ! nat n))),
      w\<lparr>STATE := (STATE w)\<lparr>
            completed_tasks := Some (insert n (get_completed_tasks (STATE w))),
            completed_hashes := Some (insert (generate_task_hash (steps ! nat n))
                                        (get_completed_hashes (STATE w))),
            task_hashes := Some (AList.update n (generate_task_hash (steps ! nat n))
                                   (case task_hashes (STATE w) of None \<Rightarrow> [] | Some d \<Rightarrow> d))\<rparr>,
         STATE_FILE := Some ((STATE w)\<lparr>
            completed_tasks := Some (insert n (get_completed_tasks (STATE w))),
            completed_hashes := Some (insert (generate_task_hash (steps ! nat n))
                                        (get_completed_hashes (STATE w))),
            task_hashes := Some (AList.update n (generate_task_hash (steps ! nat n))
                                   (case task_hashes (STATE w) of None \<Rightarrow> [] | Some d \<Rightarrow> d))\<rparr>)\<rparr>)"
proof -
  have "0 \<le> n"
    using clamp_index_range [of "int (length steps)" idx] assms(2) by simp
  then have p: "py_index steps n = Inr (steps ! nat n)"
    using assms(3) by (rule py_index_in_range)
  show ?thesis
    by (simp add: tasks_complete_def assms(1,2) p Let_def save_state_def
        get_completed_tasks_def get_completed_hashes_def split: option.splits)
qed

lemma tasks_uncomplete_absent:
  assumes "load_tasks_raw f = Inr steps"
    and "clamp_index idx (int (length steps)) = n" and "n \<notin> get_completed_tasks (STATE w)"
  shows "tasks_uncomplete idx f w = (Inr (AlreadyIncomplete n), w)"
  using assms(3) by (simp add: tasks_uncomplete_def assms(1,2) Let_def)

lemma tasks_uncomplete_present:
  assumes "load_tasks_raw f = Inr steps"
    and "clamp_index idx (int (length steps)) = n" and "n \<in> get_completed_tasks (STATE w)"
  shows "snd (tasks_uncomplete idx f w) =
           w\<lparr>STATE := (STATE w)\<lparr>completed_tasks := Some (get_completed_tasks (STATE w) - {n})\<rparr>,
             STATE_FILE := Some ((STATE w)\<lparr>completed_tasks := Some (get_completed_tasks (STATE w) - {n})\<rparr>)\<rparr>"
    and "fst (tasks_uncomplete idx f w) =
           (if n < int (length steps) then Inr (Uncompleted n (first_line (steps ! nat n)))
            else Inl IndexError)"
proof -
  have some: "completed_tasks (STATE w) \<noteq> None"
    using assms(3) by (cases "completed_tasks (STATE w)") (simp_all add: get_completed_tasks_def)
  have "0 \<le> n \<and> n \<le> int (length steps)"
    using clamp_index_range [of "int (length steps)" idx] assms(2) by simp
  then have p: "py_index steps n =
      (if n < int (length steps) then Inr (steps ! nat n) else Inl IndexError)"
    by (simp add: py_index_def)
  show "snd (tasks_uncomplete idx f w) =
           w\<lparr>STATE := (STATE w)\<lparr>completed_tasks := Some (get_completed_tasks (STATE w) - {n})\<rparr>,
             STATE_FILE := Some ((STATE w)\<lparr>completed_tasks := Some (get_completed_tasks (STATE w) - {n})\<rparr>)\<rparr>"
    using some assms(3) by (simp add: tasks_uncomplete_def assms(1,2) p Let_def save_state_def)
  show "fst (tasks_uncomplete idx f w) =
           (if n < int (length steps) then Inr (Uncompleted n (first_line (steps ! nat n)))
            else Inl IndexError)"
    using some assms(3) by (simp add: tasks_uncomplete_def assms(1,2) p Let_def save_state_def)
qed

lemma load_tasks_raw_Inr:
  assumes "load_tasks_raw f = Inr steps"
  obtains raw where "f = Some raw" and "blocks raw = steps" and "steps \<noteq> []"
proof (cases f)
  case None
  then show ?thesis using assms by (simp add: load_tasks_raw_def)
next
  case (Some raw)
  then have "blocks raw = steps \<and> steps \<noteq> []"
    using assms by (simp add: load_tasks_raw_blocks split: if_splits)
  then show ?thesis using that Some by blast
qed

lemma fingerprints_member:
  "i < length ts \<Longrightarrow> (int i, generate_task_hash (ts ! i)) \<in> set (fingerprints ts)"
  unfolding fingerprints_def in_set_zip by (rule exI [of _ i]) simp

lemma non_comments_all: "\<forall>t\<in>set ts. \<not> startswith_hash t \<Longrightarrow> non_comments ts = ts"
  by (simp add: non_comments_def)

lemma load_tasks_length:
  assumes "load_tasks_raw f = Inr steps"
  obtains sw where "load_tasks rules f = Inr sw" and "length sw = length steps"
proof (cases "rules = []")
  case True
  then have "load_tasks rules f = Inr steps"
    using assms by (simp add: load_tasks_def)
  then show ?thesis using that by blast
next
  case False
  then have "load_tasks rules f = Inr (map (\<lambda>task. rules @ [CHR 0x0A, CHR 0x0A] @ task) steps)"
    using assms by (simp add: load_tasks_def)
  then show ?thesis using that [of "map (\<lambda>task. rules @ [CHR 0x0A, CHR 0x0A] @ task) steps"] by simp
qed

lemma auto_loop_in_range:
  assumes "\<forall>i\<in>set is. 0 \<le> i \<and> i < int (length steps_raw)"
    and "length sw = length steps_raw"
  shows "auto_loop steps_raw sw is (tte, er, ct) =
     (None, tte @ map (\<lambda>i. (i, first_line (steps_raw ! nat i))) is,
      er @ map (\<lambda>i. (i, sw ! nat i)) is, ct \<union> set is)"
  using assms(1)
proof (induction "is" arbitrary: tte er ct)
  case Nil
  show ?case by simp
next
  case (Cons i "is")
  have i: "0 \<le> i" "i < int (length steps_raw)" using Cons.prems by simp_all
  have p1: "py_index steps_raw i = Inr (steps_raw ! nat i)"
    using i by (rule py_index_in_range)
  have p2: "py_index sw i = Inr (sw ! nat i)"
    using i assms(2) by (simp add: py_index_in_range)
  have rest: "\<forall>i\<in>set is. 0 \<le> i \<and> i < int (length steps_raw)"
    using Cons.prems by simp
  show ?case
    using i by (simp add: p1 p2 assms(2) Cons.IH [OF rest] Let_def)
qed

lemma tasks_auto_all_done:
  assumes "load_tasks_raw f = Inr steps" and "int (length steps) \<le> get_index (STATE w)"
  shows "tasks_auto count0 rules f w = (Inr AllCompleted, w)"
proof -
  obtain sw where sw: "load_tasks rules f = Inr sw" "length sw = length steps"
    using assms(1) by (rule load_tasks_length)
  show ?thesis
    using assms(2) by (simp add: tasks_auto_def assms(1) sw(1) Let_def)
qed

lemma tasks_auto_invalid:
  assumes "load_tasks_raw f = Inr steps" and "get_index (STATE w) < int (length steps)"
    and "spec_resolved_count count0 (int (length steps) - get_index (STATE w)) \<le> 0"
  shows "tasks_auto count0 rules f w =
     (Inr InvalidCount,
      w\<lparr>STATE := (if completed_tasks (STATE w) = None
                    then (STATE w)\<lparr>completed_tasks := Some {}\<rparr> else STATE w)\<rparr>)"
proof -
  obtain sw where sw: "load_tasks rules f = Inr sw" "length sw = length steps"
    using assms(1) by (rule load_tasks_length)
  show ?thesis
    using assms(2,3)
    by (simp add: tasks_auto_def assms(1) sw(1) Let_def spec_resolved_count_def min_def
        split: option.splits if_splits)
qed

lemma tasks_auto_prepared:
  assumes "load_tasks_raw f = Inr steps" and "load_tasks rules f = Inr sw"
    and "0 \<le> get_index (STATE w)" and "get_index (STATE w) < int (length steps)"
    and "spec_resolved_count count0 (int (length steps) - get_index (STATE w)) = cnt"
    and "0 < cnt"
  shows "tasks_auto count0 rules f w =
     (Inr (Prepared cnt (cnt = int (length steps) - get_index (STATE w))
             (map (\<lambda>i. (i, first_line (steps ! nat i)))
                [get_index (STATE w) .. get_index (STATE w) + cnt - 1])
             (map (\<lambda>i. (i, sw ! nat i))
                [get_index (STATE w) .. get_index (STATE w) + cnt - 1])),
      w\<lparr>STATE := (STATE w)\<lparr>
             completed_tasks := Some (get_completed_tasks (STATE w)
                                      \<union> {get_index (STATE w) .. get_index (STATE w) + cnt - 1}),
             index := Some (get_index (STATE w) + cnt)\<rparr>,
         STATE_FILE := Some ((STATE w)\<lparr>
             completed_tasks := Some (get_completed_tasks (STATE w)
                                      \<union> {get_index (STATE w) .. get_index (STATE w) + cnt - 1}),
             index := Some (get_index (STATE w) + cnt)\<rparr>)\<rparr>)"
proof -
  let ?idx = "get_index (STATE w)"
  let ?rem = "int (length steps) - ?idx"
  let ?S = "if completed_tasks (STATE w) = None
            then (STATE w)\<lparr>completed_tasks := Some {}\<rparr> else STATE w"
  obtain sw' where sw': "load_tasks rules f = Inr sw'" "length sw' = length steps"
    using assms(1) by (rule load_tasks_length)
  have len: "length sw = length steps" using sw' assms(2) by simp
  have le: "cnt \<le> ?rem"
    using assms(5) by (auto simp: spec_resolved_count_def)
  have range: "\<forall>i\<in>set [?idx .. ?idx + cnt - 1]. 0 \<le> i \<and> i < int (length steps)"
    using assms(3) le by auto
  have loop: "auto_loop steps sw [?idx .. ?idx + cnt - 1] ([], [], get_completed_tasks ?S) =
      (None, [] @ map (\<lambda>i. (i, first_line (steps ! nat i))) [?idx .. ?idx + cnt - 1],
       [] @ map (\<lambda>i. (i, sw ! nat i)) [?idx .. ?idx + cnt - 1],
       get_completed_tasks ?S \<union> set [?idx .. ?idx + cnt - 1])"
    using range len by (rule auto_loop_in_range)
  have gS: "get_completed_tasks ?S = get_completed_tasks (STATE w)"
    by (simp add: get_completed_tasks_def)
  show ?thesis
  proof (cases count0)
    case None
    then have c: "?rem = cnt"
      using assms(5) by (simp add: spec_resolved_count_def)
    show ?thesis
      using assms(4,6) loop None
      by (simp add: tasks_auto_def assms(1,2) Let_def gS save_state_def flip: c)
  next
    case (Some c)
    show ?thesis
    proof (cases "c > ?rem")
      case True
      then have c: "?rem = cnt"
        using assms(5) Some by (simp add: spec_resolved_count_def)
      show ?thesis
        using assms(4,6) loop Some True
        by (simp add: tasks_auto_def assms(1,2) Let_def gS save_state_def flip: c)
    next
      case False
      then have c: "c = cnt"
        using assms(5) Some by (simp add: spec_resolved_count_def)
      show ?thesis
        using assms(4,6) loop Some False
        by (simp add: tasks_auto_def assms(1,2) Let_def gS save_state_def c)
    qed
  qed
qed

subsection \<open>Concrete task files\<close>


lemma raw_A_B_C: "load_tasks_raw file_A_B_C = Inr [''A'', ''B'', ''C'']"
  by (simp add: file_A_B_C_def load_tasks_raw_def str_eval)

lemma raw_c_A: "load_tasks_raw file_c_A = Inr [''# c'', ''A'']"
  by (simp add: file_c_A_def load_tasks_raw_def str_eval)

lemma hashes_c_A: "get_current_task_hashes file_c_A = [(0, generate_task_hash ''A'')]"
  by (simp add: file_c_A_def get_current_task_hashes_def str_eval)

lemma raw_only_comment: "load_tasks_raw (Some ''# only a comment'') = Inr [''# only a comment'']"
  by (simp add: load_tasks_raw_def str_eval)

lemma rules_A_B_C:
  "load_tasks ''R'' file_A_B_C = Inr [''R\<newline>\<newline>A'', ''R\<newline>\<newline>B'', ''R\<newline>\<newline>C'']"
  by (simp add: load_tasks_def raw_A_B_C)

subsection \<open>Completion followed by reconciliation\<close>

lemma sync_after_state:
  "get_completed_tasks (STATE (snd (sync_tasks f w))) =
     {k. \<exists>h. (k, h) \<in> set (get_current_task_hashes f) \<and> h \<in> get_completed_hashes (STATE w)}"
  by (simp add: sync_tasks_world sync_completed_tasks get_completed_tasks_def)

lemma tasks_complete_sets:
  assumes "load_tasks_raw f = Inr steps" and "0 \<le> n" and "n < int (length steps)"
  shows "get_completed_hashes (STATE (snd (tasks_complete n f w))) =
           insert (generate_task_hash (steps ! nat n)) (get_completed_hashes (STATE w))"
    and "get_completed_tasks (STATE (snd (tasks_complete n f w))) =
           insert n (get_completed_tasks (STATE w))"
proof -
  have c: "clamp_index n (int (length steps)) = n"
    using assms(2,3) by (simp add: clamp_index_def)
  note r = tasks_complete_in_range [OF assms(1) c assms(3), of w]
  show "get_completed_hashes (STATE (snd (tasks_complete n f w))) =
           insert (generate_task_hash (steps ! nat n)) (get_completed_hashes (STATE w))"
    by (simp add: r get_completed_hashes_def)
  show "get_completed_tasks (STATE (snd (tasks_complete n f w))) =
           insert n (get_completed_tasks (STATE w))"
    by (simp add: r get_completed_tasks_def)
qed

lemma hashes_of_steps:
  assumes "load_tasks_raw f = Inr steps"
  shows "get_current_task_hashes f = fingerprints (non_comments steps)"
proof -
  obtain raw where "f = Some raw" "blocks raw = steps"
    using assms by (rule load_tasks_raw_Inr)
  then show ?thesis by (simp add: hashes_of_blocks)
qed

lemma tasks_uncomplete_keeps_hashes:
  assumes "load_tasks_raw f = Inr steps"
  shows "completed_hashes (STATE (snd (tasks_uncomplete idx f w))) = completed_hashes (STATE w)"
proof (cases "clamp_index idx (int (length steps)) \<in> get_completed_tasks (STATE w)")
  case True
  show ?thesis
    by (simp add: tasks_uncomplete_present(1) [OF assms refl True])
next
  case False
  show ?thesis
    by (simp add: tasks_uncomplete_absent [OF assms refl False])
qed

lemma sync_tasks_reply:
  assumes "load_tasks_raw f = Inr current_tasks"
  shows "fst (sync_tasks f w) =
     Synced (length (filter (\<lambda>task. \<not> startswith_hash (strip task)) current_tasks))
       (card (get_completed_tasks (fst (sync_state_with_tasks f w))))
       (get_index (fst (sync_state_with_tasks f w)))
       (map (\<lambda>(i, task). (i, i \<in> get_completed_tasks (fst (sync_state_with_tasks f w)),
                            first_line task,
                            map_of (case task_hashes (fst (sync_state_with_tasks f w)) of
                                      None \<Rightarrow> [] | Some d \<Rightarrow> d) i))
          (filter (\<lambda>(i, task). \<not> startswith_hash (strip task))
             (zip (map int [0..<length current_tasks]) current_tasks)))"
  by (cases "sync_state_with_tasks f w") (simp add: sync_tasks_def assms Let_def)

lemma non_comments_prefix:
  assumes "\<forall>t\<in>set (take k ts). \<not> startswith_hash t"
  shows "non_comments ts = take k ts @ non_comments (drop k ts)"
proof -
  have "non_comments ts = non_comments (take k ts @ drop k ts)"
    by simp
  also have "\<dots> = non_comments (take k ts) @ non_comments (drop k ts)"
    by (simp only: non_comments_def filter_append)
  also have "non_comments (take k ts) = take k ts"
    using assms by (rule non_comments_all)
  finally show ?thesis .
qed

lemma fingerprints_member_prefix:
  assumes "i < length ts" and "\<forall>t\<in>set (take (Suc i) ts). \<not> startswith_hash t"
  shows "(int i, generate_task_hash (ts ! i)) \<in> set (fingerprints (non_comments ts))"
proof -
  have n: "non_comments ts = take (Suc i) ts @ non_comments (drop (Suc i) ts)"
    using assms(2) by (rule non_comments_prefix)
  have l: "i < length (take (Suc i) ts)"
    using assms(1) by simp
  have "non_comments ts ! i = take (Suc i) ts ! i"
    unfolding n using l by (simp only: nth_append if_True)
  then have e: "non_comments ts ! i = ts ! i"
    by simp
  have "i < length (non_comments ts)"
    unfolding n using l by simp
  then have "(int i, generate_task_hash (non_comments ts ! i)) \<in> set (fingerprints (non_comments ts))"
    by (rule fingerprints_member)
  then show ?thesis by (simp only: e)
qed
section \<open>Facts about fingerprints\<close>

subsection \<open>The shape of a fingerprint\<close>








subsection \<open>Two digests\<close>

text \<open>\<open>generate_task_hash\<close> digests its argument as it is; the trimming is done by its
  callers.  Two values, as \<open>hashlib\<close> gives them for \<open>b'A'\<close> and \<open>b'A\n'\<close>:\<close>

lemma hash_A_value: "generate_task_hash ''A'' = ''7fc56270''"
  by code_simp

lemma hash_A_newline_value: "generate_task_hash ''A\<newline>'' = ''bf072e91''"
  by code_simp

lemma map_strip_blocks: "map strip (blocks raw) = blocks raw"
  by (rule map_idI) (rule blocks_stripped)

section \<open>Parsing: comment blocks and empty files\<close>



text \<open>
  C3 as stated fails twice: for an absent task file \<open>get_current_task_hashes\<close> returns the
  empty dictionary instead of failing, and a file that holds only a comment block is not
  reported as empty by \<open>load_tasks_raw\<close>, which returns the comment as a task.
\<close>

theorem absent_file_and_comment_only_file:
  "get_current_task_hashes None = []
   \<and> load_tasks_raw (Some ''# only a comment'') = Inr [''# only a comment'']
   \<and> load_tasks_raw (Some ''# only a comment'') \<noteq> Inl ValueError"
  by (simp add: raw_only_comment get_current_task_hashes_def)

text \<open>
  C3, amended: \<open>load_tasks_raw\<close> fails with FileNotFoundError exactly when the task file
  is absent, and with ValueError exactly when the file holds no block at all, comment or
  not, that is when every character of it is white space.  \<open>get_current_task_hashes\<close>
  returns the empty dictionary for an absent file.
\<close>

theorem load_tasks_raw_errors:
  "load_tasks_raw None = Inl FileNotFoundError
   \<and> load_tasks_raw (Some raw) \<noteq> Inl FileNotFoundError
   \<and> (load_tasks_raw (Some raw) = Inl ValueError \<longleftrightarrow> spec_blocks raw = [])
   \<and> (load_tasks_raw (Some raw) = Inl ValueError \<longleftrightarrow> (\<forall>c\<in>set raw. isspace c))
   \<and> get_current_task_hashes None = []"
proof -
  have "load_tasks_raw (Some raw) = Inl ValueError \<longleftrightarrow> blocks raw = []"
    by (simp add: load_tasks_raw_blocks)
  then show ?thesis
    using blocks_Nil_iff [of raw] blocks_spec [of raw]
    by (simp add: load_tasks_raw_def [of None] get_current_task_hashes_def [of None]
        load_tasks_raw_blocks)
qed

theorem load_tasks_raw_errors_witness:
  "isspace (CHR '' '') \<and> isspace (CHR 0x0A) \<and> load_tasks_raw (Some '' \<newline>'') = Inl ValueError
   \<and> spec_blocks '' \<newline>'' = []
   \<and> \<not> isspace (CHR ''A'') \<and> load_tasks_raw (Some ''A'') \<noteq> Inl ValueError"
proof -
  have a: "\<forall>c\<in>set '' \<newline>''. isspace c"
    by (simp add: isspace_def)
  have b: "\<not> (\<forall>c\<in>set ''A''. isspace c)"
    by (simp add: isspace_def)
  have c: "isspace (CHR '' '') \<and> isspace (CHR 0x0A) \<and> \<not> isspace (CHR ''A'')"
    by (simp add: isspace_def)
  show ?thesis
    using load_tasks_raw_errors [of "'' \<newline>''"] load_tasks_raw_errors [of "''A''"] a b c
    by blast
qed

section \<open>Reconciliation\<close>

subsection \<open>What reconciliation does to the fingerprint history\<close>

text \<open>
  C2 as stated fails: \<open>sync_state_with_tasks\<close> replaces \<open>completed_hashes\<close> by the
  fingerprints it has just confirmed.  With task \<open>A\<close> completed, reconciling against an
  emptied task file leaves no fingerprint, and re-adding \<open>A\<close> afterwards does not bring
  the completion back.
\<close>

theorem sync_prunes_completed_hashes:
  "completed_hashes (fst (sync_state_with_tasks (Some '''') world_A_done)) = Some {}
   \<and> completed_hashes (fst (sync_state_with_tasks (Some '''') world_A_done))
       \<noteq> completed_hashes (STATE world_A_done)
   \<and> completed_tasks (STATE (snd (sync_tasks (Some ''A'') (snd (sync_tasks (Some '''') world_A_done)))))
       = Some {}"
  by (simp add: sync_tasks_world sync_completed_hashes sync_completed_tasks hashes_A hashes_empty
      get_completed_hashes_def world_A_done_def state_A_done_def)

text \<open>
  C2, amended: reconciliation never adds a fingerprint to \<open>completed_hashes\<close>; it keeps
  exactly those earlier fingerprints that occur in the current task file, so the result is
  a subset of the earlier history.
\<close>

theorem sync_completed_hashes_inter:
  "get_completed_hashes (fst (sync_state_with_tasks f w)) =
     get_completed_hashes (STATE w) \<inter> snd ` set (get_current_task_hashes f)
   \<and> get_completed_hashes (fst (sync_state_with_tasks f w)) \<subseteq> get_completed_hashes (STATE w)"
  using sync_completed_hashes [of f w] by (simp add: get_completed_hashes_def)

subsection \<open>Idempotence\<close>

lemma sync_twice_state:
  assumes "STATE w' = fst (sync_state_with_tasks f w)"
  shows "fst (sync_state_with_tasks f w') = fst (sync_state_with_tasks f w)"
proof -
  let ?s = "fst (sync_state_with_tasks f w)"
  let ?t = "fst (sync_state_with_tasks f w')"
  let ?H = "get_current_task_hashes f"
  have ch: "get_completed_hashes (STATE w') = get_completed_hashes (STATE w) \<inter> snd ` set ?H"
    unfolding assms using sync_completed_hashes [of f w] by (simp add: get_completed_hashes_def)
  have gi: "get_index (STATE w') = (if get_index (STATE w) \<ge> int (length ?H) then int (length ?H) else get_index (STATE w))"
    unfolding assms using sync_index [of f w] by (simp add: get_index_def)
  have "index ?t = (if get_index (STATE w') \<ge> int (length ?H) then Some (int (length ?H)) else index (STATE w'))"
    by (rule sync_index)
  also have "\<dots> = index ?s"
    unfolding gi unfolding assms by (simp add: sync_index [of f w])
  finally have i: "index ?t = index ?s" .
  have mem: "h \<in> snd ` set ?H" if "(k, h) \<in> set ?H" for k h
    using that by (metis image_eqI snd_conv)
  have "{k. \<exists>h. (k, h) \<in> set ?H \<and> h \<in> get_completed_hashes (STATE w')}
      = {k. \<exists>h. (k, h) \<in> set ?H \<and> h \<in> get_completed_hashes (STATE w)}"
    unfolding ch using mem by auto
  then have c: "completed_tasks ?t = completed_tasks ?s"
    by (simp only: sync_completed_tasks)
  have "get_completed_hashes (STATE w') \<inter> snd ` set ?H = get_completed_hashes (STATE w) \<inter> snd ` set ?H"
    unfolding ch by blast
  then have h: "completed_hashes ?t = completed_hashes ?s"
    by (simp only: sync_completed_hashes)
  have t: "task_hashes ?t = task_hashes ?s"
    by (simp only: sync_task_hashes)
  have "?t = (STATE w')\<lparr>index := index ?t, completed_tasks := completed_tasks ?t,
                        completed_hashes := completed_hashes ?t, task_hashes := task_hashes ?t\<rparr>"
    by (rule sync_state_eq)
  also have "\<dots> = ?s\<lparr>index := index ?s, completed_tasks := completed_tasks ?s,
                        completed_hashes := completed_hashes ?s, task_hashes := task_hashes ?s\<rparr>"
    by (simp only: assms i c h t)
  also have "\<dots> = ?s" by simp
  finally show ?thesis .
qed

text \<open>
  C5: reconciliation is idempotent.  Running \<open>sync_tasks\<close> twice against the same task
  file leaves the in-memory state and the state file as the first run left them, for
  every state (keys missing or not) and every task file (absent or not).
\<close>

theorem sync_tasks_idempotent:
  "snd (sync_tasks f (snd (sync_tasks f w))) = snd (sync_tasks f w)"
proof -
  have "STATE (snd (sync_tasks f w)) = fst (sync_state_with_tasks f w)"
    by (simp add: sync_tasks_world)
  then have "fst (sync_state_with_tasks f (snd (sync_tasks f w))) = fst (sync_state_with_tasks f w)"
    by (rule sync_twice_state)
  then show ?thesis
    by (simp add: sync_tasks_world)
qed

subsection \<open>The pointer after reconciliation\<close>

text \<open>
  C6 as stated fails for a negative stored index: \<open>sync_state_with_tasks\<close> only tests
  \<open>index >= total_tasks\<close>.  With one task in the file and a stored index of \<open>-1\<close> the
  index stays \<open>-1\<close>, outside \<open>[0, 1]\<close>.
\<close>

theorem sync_keeps_negative_index:
  "get_index (fst (sync_state_with_tasks (Some ''A'') \<lparr>STATE = state_negative, STATE_FILE = None\<rparr>)) = - 1
   \<and> length (get_current_task_hashes (Some ''A'')) = 1"
  by (simp add: sync_index hashes_A get_index_def state_negative_def)

text \<open>
  C6, amended: with \<open>N\<close> the number of fingerprinted tasks, which is the number of
  non-comment blocks of the task file, reconciliation
  sets an index that is at least \<open>N\<close> to exactly \<open>N\<close> and leaves a smaller index as it is;
  so for every state whose index is not negative the index afterwards lies in \<open>[0, N]\<close>.
\<close>

theorem sync_index_clamped_above:
  "(int (length (get_current_task_hashes f)) \<le> get_index (STATE w) \<longrightarrow>
      get_index (fst (sync_state_with_tasks f w)) = int (length (get_current_task_hashes f)))
   \<and> (get_index (STATE w) < int (length (get_current_task_hashes f)) \<longrightarrow>
      get_index (fst (sync_state_with_tasks f w)) = get_index (STATE w))
   \<and> (0 \<le> get_index (STATE w) \<longrightarrow>
      0 \<le> get_index (fst (sync_state_with_tasks f w))
      \<and> get_index (fst (sync_state_with_tasks f w)) \<le> int (length (get_current_task_hashes f)))
   \<and> length (get_current_task_hashes (Some raw)) = length (non_comments (spec_blocks raw))"
proof -
  have "length (get_current_task_hashes (Some raw)) = length (non_comments (spec_blocks raw))"
    by (simp add: hashes_of_blocks blocks_spec fingerprints_def)
  then show ?thesis
    using sync_index [of f w] by (auto simp: get_index_def split: option.splits if_splits)
qed

theorem sync_index_clamped_above_witness:
  "int (length (get_current_task_hashes (Some ''A''))) \<le> get_index state_past_end
   \<and> get_index (fst (sync_state_with_tasks (Some ''A'') \<lparr>STATE = state_past_end, STATE_FILE = None\<rparr>)) = 1
   \<and> get_index state_initial < int (length (get_current_task_hashes (Some ''A'')))
   \<and> 0 \<le> get_index state_initial
   \<and> get_index (fst (sync_state_with_tasks (Some ''A'') \<lparr>STATE = state_initial, STATE_FILE = None\<rparr>)) = 0"
  using sync_index_clamped_above [of "Some ''A''" "\<lparr>STATE = state_past_end, STATE_FILE = None\<rparr>"]
        sync_index_clamped_above [of "Some ''A''" "\<lparr>STATE = state_initial, STATE_FILE = None\<rparr>"]
  by (simp add: hashes_A get_index_def state_past_end_def state_initial_def)

section \<open>Completion tools\<close>

subsection \<open>Completing a position\<close>

text \<open>
  C4: \<open>tasks_complete\<close> clamps the position into \<open>[0, N]\<close> and then reads \<open>steps[n]\<close>, so a
  position of \<open>N\<close> or more raises IndexError.  With three tasks, \<open>tasks_complete(3)\<close>
  fails, and nothing is written to the state file.
\<close>

theorem tasks_complete_past_end_raises:
  "load_tasks_raw file_A_B_C = Inr [''A'', ''B'', ''C'']
   \<and> fst (tasks_complete 3 file_A_B_C world_initial) = Inl IndexError
   \<and> fst (tasks_complete 99 file_A_B_C world_initial) = Inl IndexError
   \<and> STATE_FILE (snd (tasks_complete 3 file_A_B_C world_initial)) = STATE_FILE world_initial"
  using tasks_complete_out_of_range [OF raw_A_B_C, of 3 world_initial]
        tasks_complete_out_of_range [OF raw_A_B_C, of 99 world_initial]
  by (simp add: raw_A_B_C)

subsection \<open>Undoing a completion\<close>

text \<open>
  C7: \<open>tasks_uncomplete(n)\<close> removes the clamped position \<open>n\<close> from \<open>completed_tasks\<close>
  only and keeps the fingerprint, so that a following reconciliation against the unchanged
  task file should put \<open>n\<close> back.  The code misses the last part when a comment block
  stands before the task.  With the blocks \<open># c\<close>, \<open>A\<close>: \<open>tasks_complete(1)\<close> marks
  position 1, \<open>tasks_uncomplete(1)\<close> unmarks it and retains the fingerprint of \<open>A\<close>, and
  \<open>sync_tasks\<close> then marks position 0 instead of position 1, because
  \<open>get_current_task_hashes\<close> numbers the blocks without the comment.  The summary of
  \<open>sync_tasks\<close> itself still reads the state by the unfiltered position: it counts one
  completed task and lists task 1, \<open>A\<close>, as not completed and without a fingerprint.
\<close>

theorem uncomplete_then_sync_loses_position:
  "load_tasks_raw file_c_A = Inr [''# c'', ''A'']
   \<and> 1 \<in> get_completed_tasks (STATE (snd (tasks_complete 1 file_c_A world_initial)))
   \<and> 1 \<notin> get_completed_tasks (STATE (snd (tasks_uncomplete 1 file_c_A
                (snd (tasks_complete 1 file_c_A world_initial)))))
   \<and> generate_task_hash ''A'' \<in> get_completed_hashes (STATE (snd (tasks_uncomplete 1 file_c_A
                (snd (tasks_complete 1 file_c_A world_initial)))))
   \<and> 1 \<notin> get_completed_tasks (STATE (snd (sync_tasks file_c_A (snd (tasks_uncomplete 1 file_c_A
                (snd (tasks_complete 1 file_c_A world_initial)))))))
   \<and> get_completed_tasks (STATE (snd (sync_tasks file_c_A (snd (tasks_uncomplete 1 file_c_A
                (snd (tasks_complete 1 file_c_A world_initial))))))) = {0}
   \<and> fst (sync_tasks file_c_A (snd (tasks_uncomplete 1 file_c_A
                (snd (tasks_complete 1 file_c_A world_initial)))))
       = Synced 1 1 0 [(1, False, ''A'', None)]"
proof -
  let ?w1 = "snd (tasks_complete 1 file_c_A world_initial)"
  let ?w2 = "snd (tasks_uncomplete 1 file_c_A ?w1)"
  let ?s = "fst (sync_state_with_tasks file_c_A ?w2)"
  have c: "clamp_index 1 (int (length [''# c'', ''A''])) = 1"
    by (simp add: clamp_index_def)
  have lt: "(1::int) < int (length [''# c'', ''A''])"
    by simp
  have w1: "STATE ?w1 = state_initial\<lparr>completed_tasks := Some {1},
      completed_hashes := Some {generate_task_hash ''A''},
      task_hashes := Some [(1, generate_task_hash ''A'')]\<rparr>"
    by (simp add: tasks_complete_in_range [OF raw_c_A c lt] world_initial_def state_initial_def
        get_completed_tasks_def get_completed_hashes_def)
  have t1: "get_completed_tasks (STATE ?w1) = {1}"
    by (simp add: w1 get_completed_tasks_def)
  have m: "1 \<in> get_completed_tasks (STATE ?w1)"
    by (simp add: t1)
  have w2: "STATE ?w2 = state_initial\<lparr>completed_tasks := Some {},
      completed_hashes := Some {generate_task_hash ''A''},
      task_hashes := Some [(1, generate_task_hash ''A'')]\<rparr>"
    by (simp add: tasks_uncomplete_present(1) [OF raw_c_A c m] w1 get_completed_tasks_def
        state_initial_def)
  have t2: "get_completed_tasks (STATE ?w2) = {}"
    by (simp add: w2 get_completed_tasks_def)
  have h2: "get_completed_hashes (STATE ?w2) = {generate_task_hash ''A''}"
    by (simp add: w2 get_completed_hashes_def)
  have i2: "get_index (STATE ?w2) = 0"
    by (simp add: w2 get_index_def state_initial_def)
  have t3: "get_completed_tasks (STATE (snd (sync_tasks file_c_A ?w2))) = {0}"
    by (simp add: sync_after_state hashes_c_A h2)
  have s1: "get_completed_tasks ?s = {0}"
    using t3 by (simp add: sync_tasks_world)
  have s2: "get_index ?s = 0"
    by (simp add: get_index_def sync_index hashes_c_A w2 state_initial_def)
  have s3: "task_hashes ?s = Some [(0, generate_task_hash ''A'')]"
    by (simp add: sync_task_hashes hashes_c_A)
  have u: "[0..<2] = [0, Suc 0]"
    by (simp add: upt_rec)
  have r: "fst (sync_tasks file_c_A ?w2) = Synced 1 1 0 [(1, False, ''A'', None)]"
    by (simp add: sync_tasks_reply [OF raw_c_A] s1 s2 s3 u first_line_def str_eval)
  show ?thesis
    by (simp add: raw_c_A t1 t2 h2 t3 r)
qed

text \<open>
  What does hold for every input: the removal touches \<open>completed_tasks\<close> only and is
  saved; a position that is not marked gives a no-op; and reconciliation does put \<open>n\<close>
  back when neither task \<open>n\<close> nor a block before it is a comment and the fingerprint of
  task \<open>n\<close> is in \<open>completed_hashes\<close>.
\<close>

lemma tasks_uncomplete_frame_and_resync:
  assumes "load_tasks_raw f = Inr steps" and "clamp_index idx (int (length steps)) = n"
  shows "(n \<in> get_completed_tasks (STATE w) \<longrightarrow>
            STATE (snd (tasks_uncomplete idx f w)) =
              (STATE w)\<lparr>completed_tasks := Some (get_completed_tasks (STATE w) - {n})\<rparr>
            \<and> STATE_FILE (snd (tasks_uncomplete idx f w)) = Some (STATE (snd (tasks_uncomplete idx f w))))
       \<and> (n \<notin> get_completed_tasks (STATE w) \<longrightarrow>
            tasks_uncomplete idx f w = (Inr (AlreadyIncomplete n), w))
       \<and> (n < int (length steps) \<and> (\<forall>t\<in>set (take (Suc (nat n)) steps). \<not> startswith_hash t)
            \<and> generate_task_hash (steps ! nat n) \<in> get_completed_hashes (STATE w) \<longrightarrow>
            n \<in> get_completed_tasks (STATE (snd (sync_tasks f (snd (tasks_uncomplete idx f w))))))"
proof (intro conjI impI)
  assume m: "n \<in> get_completed_tasks (STATE w)"
  show "STATE (snd (tasks_uncomplete idx f w)) =
      (STATE w)\<lparr>completed_tasks := Some (get_completed_tasks (STATE w) - {n})\<rparr>"
    by (simp add: tasks_uncomplete_present(1) [OF assms m])
  show "STATE_FILE (snd (tasks_uncomplete idx f w)) = Some (STATE (snd (tasks_uncomplete idx f w)))"
    by (simp add: tasks_uncomplete_present(1) [OF assms m])
next
  assume "n \<notin> get_completed_tasks (STATE w)"
  then show "tasks_uncomplete idx f w = (Inr (AlreadyIncomplete n), w)"
    by (rule tasks_uncomplete_absent [OF assms])
next
  assume a: "n < int (length steps) \<and> (\<forall>t\<in>set (take (Suc (nat n)) steps). \<not> startswith_hash t)
      \<and> generate_task_hash (steps ! nat n) \<in> get_completed_hashes (STATE w)"
  have n0: "0 \<le> n"
    using clamp_index_range [of "int (length steps)" idx] assms(2) by simp
  have "get_completed_hashes (STATE (snd (tasks_uncomplete idx f w))) = get_completed_hashes (STATE w)"
    using tasks_uncomplete_keeps_hashes [OF assms(1), of idx w] by (simp add: get_completed_hashes_def)
  then have h: "generate_task_hash (steps ! nat n) \<in> get_completed_hashes (STATE (snd (tasks_uncomplete idx f w)))"
    using a by simp
  have H: "get_current_task_hashes f = fingerprints (non_comments steps)"
    by (rule hashes_of_steps [OF assms(1)])
  have "nat n < length steps"
    using a n0 by linarith
  then have "(int (nat n), generate_task_hash (steps ! nat n)) \<in> set (fingerprints (non_comments steps))"
    using a by (intro fingerprints_member_prefix) blast+
  then have "(n, generate_task_hash (steps ! nat n)) \<in> set (get_current_task_hashes f)"
    using n0 H by simp
  then show "n \<in> get_completed_tasks (STATE (snd (sync_tasks f (snd (tasks_uncomplete idx f w)))))"
    unfolding sync_after_state using h by blast
qed

subsection \<open>Batch advance\<close>

text \<open>
  C8 as stated fails when the pointer is already at the end: the resolved count is then 0,
  but \<open>tasks_auto\<close> answers that all tasks are completed, not that the count is invalid.
\<close>

theorem tasks_auto_at_end_is_all_done:
  "load_tasks_raw file_A_B_C = Inr [''A'', ''B'', ''C'']
   \<and> get_index (STATE world_at_end) = 3
   \<and> spec_resolved_count None (3 - get_index (STATE world_at_end)) \<le> 0
   \<and> fst (tasks_auto None ''R'' file_A_B_C world_at_end) = Inr AllCompleted
   \<and> fst (tasks_auto None ''R'' file_A_B_C world_at_end) \<noteq> Inr InvalidCount"
  using tasks_auto_all_done [OF raw_A_B_C, of world_at_end None "''R''"]
  by (simp add: raw_A_B_C world_at_end_def get_index_def spec_resolved_count_def)

text \<open>
  C8, amended: with \<open>N\<close> tasks and the pointer at \<open>index\<close>, \<open>tasks_auto\<close> answers "all
  completed" and changes nothing when \<open>index >= N\<close>.  Otherwise it resolves the count to
  \<open>min(count ?? remaining, remaining)\<close> with \<open>remaining = N - index\<close>; if that is \<open><= 0\<close> it
  answers "invalid count", the index, the completion sets and the state file stay as they
  were; if it is positive and \<open>index >= 0\<close>, it marks the positions
  \<open>index .. index + count - 1\<close>, advances the index by the count, saves the state and
  returns those positions with their first lines and their rule-annotated content.
\<close>

theorem tasks_auto_cases:
  assumes "load_tasks_raw f = Inr steps" and "load_tasks rules f = Inr sw"
  shows "(int (length steps) \<le> get_index (STATE w) \<longrightarrow>
            tasks_auto count0 rules f w = (Inr AllCompleted, w))
       \<and> (get_index (STATE w) < int (length steps)
            \<and> spec_resolved_count count0 (int (length steps) - get_index (STATE w)) \<le> 0 \<longrightarrow>
            fst (tasks_auto count0 rules f w) = Inr InvalidCount
            \<and> get_index (STATE (snd (tasks_auto count0 rules f w))) = get_index (STATE w)
            \<and> get_completed_tasks (STATE (snd (tasks_auto count0 rules f w)))
                = get_completed_tasks (STATE w)
            \<and> completed_hashes (STATE (snd (tasks_auto count0 rules f w)))
                = completed_hashes (STATE w)
            \<and> task_hashes (STATE (snd (tasks_auto count0 rules f w))) = task_hashes (STATE w)
            \<and> STATE_FILE (snd (tasks_auto count0 rules f w)) = STATE_FILE w)
       \<and> (0 \<le> get_index (STATE w) \<and> get_index (STATE w) < int (length steps)
            \<and> 0 < spec_resolved_count count0 (int (length steps) - get_index (STATE w)) \<longrightarrow>
            (let idx = get_index (STATE w);
                 cnt = spec_resolved_count count0 (int (length steps) - idx);
                 S = (STATE w)\<lparr>completed_tasks := Some (get_completed_tasks (STATE w) \<union> {idx .. idx + cnt - 1}),
                               index := Some (idx + cnt)\<rparr>
             in tasks_auto count0 rules f w =
                  (Inr (Prepared cnt (cnt = int (length steps) - idx)
                          (map (\<lambda>i. (i, first_line (steps ! nat i))) [idx .. idx + cnt - 1])
                          (map (\<lambda>i. (i, sw ! nat i)) [idx .. idx + cnt - 1])),
                   w\<lparr>STATE := S, STATE_FILE := Some S\<rparr>)))"
proof (intro conjI impI)
  assume "int (length steps) \<le> get_index (STATE w)"
  then show "tasks_auto count0 rules f w = (Inr AllCompleted, w)"
    by (rule tasks_auto_all_done [OF assms(1)])
next
  assume a: "get_index (STATE w) < int (length steps)
      \<and> spec_resolved_count count0 (int (length steps) - get_index (STATE w)) \<le> 0"
  note r = tasks_auto_invalid [OF assms(1) conjunct1 [OF a] conjunct2 [OF a], of rules]
  show "fst (tasks_auto count0 rules f w) = Inr InvalidCount"
    by (simp add: r)
  show "get_index (STATE (snd (tasks_auto count0 rules f w))) = get_index (STATE w)"
    by (simp add: r get_index_def)
  show "get_completed_tasks (STATE (snd (tasks_auto count0 rules f w))) = get_completed_tasks (STATE w)"
    by (simp add: r get_completed_tasks_def)
  show "completed_hashes (STATE (snd (tasks_auto count0 rules f w))) = completed_hashes (STATE w)"
    by (simp add: r)
  show "task_hashes (STATE (snd (tasks_auto count0 rules f w))) = task_hashes (STATE w)"
    by (simp add: r)
  show "STATE_FILE (snd (tasks_auto count0 rules f w)) = STATE_FILE w"
    by (simp add: r)
next
  assume a: "0 \<le> get_index (STATE w) \<and> get_index (STATE w) < int (length steps)
      \<and> 0 < spec_resolved_count count0 (int (length steps) - get_index (STATE w))"
  show "let idx = get_index (STATE w);
            cnt = spec_resolved_count count0 (int (length steps) - idx);
            S = (STATE w)\<lparr>completed_tasks := Some (get_completed_tasks (STATE w) \<union> {idx .. idx + cnt - 1}),
                          index := Some (idx + cnt)\<rparr>
        in tasks_auto count0 rules f w =
             (Inr (Prepared cnt (cnt = int (length steps) - idx)
                     (map (\<lambda>i. (i, first_line (steps ! nat i))) [idx .. idx + cnt - 1])
                     (map (\<lambda>i. (i, sw ! nat i)) [idx .. idx + cnt - 1])),
              w\<lparr>STATE := S, STATE_FILE := Some S\<rparr>)"
    unfolding Let_def
    using a by (intro tasks_auto_prepared [OF assms]) simp_all
qed

theorem tasks_auto_cases_witness:
  "load_tasks_raw file_A_B_C = Inr [''A'', ''B'', ''C'']
   \<and> load_tasks ''R'' file_A_B_C = Inr [''R\<newline>\<newline>A'', ''R\<newline>\<newline>B'', ''R\<newline>\<newline>C'']
   \<and> int (length [''A'', ''B'', ''C'']) \<le> get_index (STATE world_at_end)
   \<and> tasks_auto None ''R'' file_A_B_C world_at_end = (Inr AllCompleted, world_at_end)
   \<and> get_index (STATE world_initial) < int (length [''A'', ''B'', ''C''])
   \<and> spec_resolved_count (Some 0) (int (length [''A'', ''B'', ''C'']) - get_index (STATE world_initial)) \<le> 0
   \<and> fst (tasks_auto (Some 0) ''R'' file_A_B_C world_initial) = Inr InvalidCount
   \<and> STATE_FILE (snd (tasks_auto (Some 0) ''R'' file_A_B_C world_initial)) = None
   \<and> 0 \<le> get_index (STATE world_initial)
   \<and> spec_resolved_count (Some 2) (int (length [''A'', ''B'', ''C'']) - get_index (STATE world_initial)) = 2
   \<and> fst (tasks_auto (Some 2) ''R'' file_A_B_C world_initial) =
        Inr (Prepared 2 False [(0, ''A''), (1, ''B'')] [(0, ''R\<newline>\<newline>A''), (1, ''R\<newline>\<newline>B'')])
   \<and> get_index (STATE (snd (tasks_auto (Some 2) ''R'' file_A_B_C world_initial))) = 2
   \<and> get_completed_tasks (STATE (snd (tasks_auto (Some 2) ''R'' file_A_B_C world_initial))) = {0, 1}
   \<and> STATE_FILE (snd (tasks_auto (Some 2) ''R'' file_A_B_C world_initial)) =
        Some (STATE (snd (tasks_auto (Some 2) ''R'' file_A_B_C world_initial)))"
proof -
  have u: "[0 .. 1] = [0, 1 :: int]"
    by (simp add: upto.simps)
  have s: "{0 .. 1} = {0, 1 :: int}"
    by auto
  show ?thesis
    using tasks_auto_cases [OF raw_A_B_C rules_A_B_C, of world_at_end None]
          tasks_auto_cases [OF raw_A_B_C rules_A_B_C, of world_initial "Some 0"]
          tasks_auto_cases [OF raw_A_B_C rules_A_B_C, of world_initial "Some 2"]
    by (simp add: raw_A_B_C rules_A_B_C world_at_end_def world_initial_def state_initial_def
        get_index_def get_completed_tasks_def spec_resolved_count_def first_line_def str_eval
        Let_def u s)
qed

section \<open>Fingerprints\<close>



section \<open>Two index spaces\<close>

text \<open>
  C10: \<open>tasks_complete(n)\<close> fingerprints the block at position \<open>n\<close> of the unfiltered
  block list of \<open>load_tasks_raw\<close>, where comment blocks have positions, while
  reconciliation gives the keys \<open>0, 1, ...\<close> to the non-comment blocks only.  So for the
  blocks \<open># c\<close>, \<open>A\<close>, from any state, \<open>tasks_complete(1)\<close> followed by \<open>sync_tasks\<close>
  leaves \<open>completed_tasks = {0}\<close>.
\<close>

theorem complete_and_sync_index_spaces:
  assumes "load_tasks_raw f = Inr steps" and "0 \<le> n" and "n < int (length steps)"
  shows "get_completed_tasks (STATE (snd (tasks_complete n f w))) =
           insert n (get_completed_tasks (STATE w))
       \<and> get_completed_hashes (STATE (snd (tasks_complete n f w))) =
           insert (generate_task_hash (steps ! nat n)) (get_completed_hashes (STATE w))
       \<and> get_current_task_hashes f = fingerprints (non_comments steps)
       \<and> load_tasks_raw file_c_A = Inr [''# c'', ''A'']
       \<and> get_completed_tasks (STATE (snd (sync_tasks file_c_A (snd (tasks_complete 1 file_c_A w))))) = {0}"
proof -
  have "get_completed_hashes (STATE (snd (tasks_complete 1 file_c_A w))) =
      insert (generate_task_hash ''A'') (get_completed_hashes (STATE w))"
    using tasks_complete_sets(1) [OF raw_c_A, of 1 w] by simp
  then have "get_completed_tasks (STATE (snd (sync_tasks file_c_A (snd (tasks_complete 1 file_c_A w))))) = {0}"
    by (simp add: sync_after_state hashes_c_A)
  then show ?thesis
    using tasks_complete_sets [OF assms, of w] hashes_of_steps [OF assms(1)] raw_c_A by simp
qed

theorem complete_and_sync_index_spaces_witness:
  "load_tasks_raw file_c_A = Inr [''# c'', ''A''] \<and> (0::int) \<le> 1 \<and> (1::int) < int (length [''# c'', ''A''])
   \<and> get_completed_tasks (STATE (snd (tasks_complete 1 file_c_A world_initial))) = {1}
   \<and> get_completed_hashes (STATE (snd (tasks_complete 1 file_c_A world_initial))) = {generate_task_hash ''A''}
   \<and> get_current_task_hashes file_c_A = [(0, generate_task_hash ''A'')]"
  using complete_and_sync_index_spaces [OF raw_c_A, of 1 world_initial]
  by (simp add: raw_c_A world_initial_def state_initial_def get_completed_tasks_def
      get_completed_hashes_def fingerprints_def non_comments_def)

end
